theory Spec2Isabelle
  imports Complex_Main "HOL-Library.AList" "HOL-Library.Sublist"
begin

section \<open>Values, dictionaries and errors\<close>

text \<open>
  The merge engine of \<^verbatim>\<open>guessit/guess.py\<close> works on \<^verbatim>\<open>Guess\<close> objects: a Python
  dictionary from property names to values, with a second dictionary \<^verbatim>\<open>_confidence\<close>
  from property names to numbers.

  Property values are integers, strings or lists of values. Confidences are Python
  floats, that is IEEE 754 double-precision numbers; a confidence is modelled as the
  real number that a finite double denotes. Comparisons of doubles are exact. The
  arithmetic of \<^verbatim>\<open>choose_int\<close> is modelled with the rounding of each operation (section
  ``Double-precision arithmetic''); the confidence expressions of \<^verbatim>\<open>choose_string\<close> are
  kept as exact expressions over the reals.

  A dictionary is an association list. Python 2 iterates a dictionary in an order that
  is an implementation detail; the model iterates in the order of the association list,
  where \<open>AList.update\<close> overwrites an existing key in place and appends a new key.
  Every theorem below speaks about look-ups and key sets only.
\<close>

datatype "value" = VInt int | VStr string | VList "value list"

datatype error = KeyError | IndexError | TypeError | ValueError | AttributeError

type_synonym 'v dict = "(string \<times> 'v) list"

definition has_key :: "'v dict \<Rightarrow> string \<Rightarrow> bool" where
  \<comment> \<open>\<^verbatim>\<open>k in d\<close>\<close>
  "has_key d k = (k \<in> set (map fst d))"

definition getitem :: "'v dict \<Rightarrow> string \<Rightarrow> error + 'v" where
  \<comment> \<open>\<^verbatim>\<open>d[k]\<close>\<close>
  "getitem d k = (case map_of d k of None \<Rightarrow> Inl KeyError | Some v \<Rightarrow> Inr v)"

definition delitem :: "'v dict \<Rightarrow> string \<Rightarrow> error + 'v dict" where
  \<comment> \<open>\<^verbatim>\<open>del d[k]\<close>\<close>
  "delitem d k = (if has_key d k then Inr (AList.delete k d) else Inl KeyError)"

definition dict_eq :: "'v dict \<Rightarrow> 'v dict \<Rightarrow> bool" where
  \<comment> \<open>\<^verbatim>\<open>d1 == d2\<close> on dictionaries: the same keys with equal values\<close>
  "dict_eq a b = list_all (\<lambda>k. map_of a k = map_of b k) (map fst a @ map fst b)"

definition bind_err :: "error + 'a \<Rightarrow> ('a \<Rightarrow> error + 'b) \<Rightarrow> error + 'b" where
  \<comment> \<open>sequencing: an exception raised by the first statement ends the function\<close>
  "bind_err m f = (case m of Inl e \<Rightarrow> Inl e | Inr x \<Rightarrow> f x)"

section \<open>The Guess class\<close>

record guess =
  vals :: "value dict"
  conf :: "real dict"

definition Guess :: "value dict \<Rightarrow> real option \<Rightarrow> guess" where
  \<comment> \<open>\<^verbatim>\<open>Guess(d, confidence = c)\<close>; without the keyword the confidence is 0\<close>
  "Guess d confidence =
     (let c = (case confidence of None \<Rightarrow> 0 | Some c \<Rightarrow> c)
      in \<lparr>vals = d, conf = map (\<lambda>prop. (prop, c)) (map fst d)\<rparr>)"

definition confidence :: "guess \<Rightarrow> string \<Rightarrow> error + real" where
  "confidence self prop = getitem (conf self) prop"

definition set_guess :: "guess \<Rightarrow> string \<Rightarrow> value \<Rightarrow> real option \<Rightarrow> guess" where
  \<comment> \<open>\<^verbatim>\<open>Guess.set(prop, value, confidence = cf)\<close>\<close>
  "set_guess self prop v cf =
     (let self1 = self\<lparr>vals := AList.update prop v (vals self)\<rparr>
      in case cf of
           None \<Rightarrow> self1
         | Some c \<Rightarrow> self1\<lparr>conf := AList.update prop c (conf self1)\<rparr>)"

definition set_confidence :: "guess \<Rightarrow> string \<Rightarrow> real \<Rightarrow> guess" where
  "set_confidence self prop c = self\<lparr>conf := AList.update prop c (conf self)\<rparr>"

fun copy_confidences :: "real dict \<Rightarrow> guess \<Rightarrow> string list \<Rightarrow> error + real dict" where
  \<comment> \<open>\<^verbatim>\<open>for prop in other: self._confidence[prop] = other.confidence(prop)\<close>\<close>
  "copy_confidences cs other [] = Inr cs"
| "copy_confidences cs other (prop # props) =
     (case confidence other prop of
        Inl e \<Rightarrow> Inl e
      | Inr c \<Rightarrow> copy_confidences (AList.update prop c cs) other props)"

definition update_guess :: "guess \<Rightarrow> guess \<Rightarrow> real option \<Rightarrow> error + guess" where
  \<comment> \<open>\<^verbatim>\<open>Guess.update(other, confidence = cf)\<close> with a Guess as \<^verbatim>\<open>other\<close>\<close>
  "update_guess self other cf =
     (let d = fold (\<lambda>(k, v). AList.update k v) (vals other) (vals self)
      in case copy_confidences (conf self) other (map fst (vals other)) of
           Inl e \<Rightarrow> Inl e
         | Inr cs \<Rightarrow>
             (case cf of
                None \<Rightarrow> Inr \<lparr>vals = d, conf = cs\<rparr>
              | Some c \<Rightarrow>
                  Inr \<lparr>vals = d,
                       conf = fold (\<lambda>prop. AList.update prop c) (map fst (vals other)) cs\<rparr>))"

fun update_highest_loop :: "guess \<Rightarrow> guess \<Rightarrow> string list \<Rightarrow> error + guess" where
  \<comment> \<open>the loop \<^verbatim>\<open>for prop in other\<close> of \<^verbatim>\<open>update_highest_confidence\<close>\<close>
  "update_highest_loop self other [] = Inr self"
| "update_highest_loop self other (prop # props) =
     (if has_key (vals self) prop then
        (case getitem (conf self) prop of
           Inl e \<Rightarrow> Inl e
         | Inr cs \<Rightarrow>
             (case getitem (conf other) prop of
                Inl e \<Rightarrow> Inl e
              | Inr co \<Rightarrow>
                  if cs \<ge> co then update_highest_loop self other props
                  else
                    (case getitem (vals other) prop of
                       Inl e \<Rightarrow> Inl e
                     | Inr v \<Rightarrow>
                         update_highest_loop
                           \<lparr>vals = AList.update prop v (vals self),
                            conf = AList.update prop co (conf self)\<rparr> other props)))
      else
        (case getitem (vals other) prop of
           Inl e \<Rightarrow> Inl e
         | Inr v \<Rightarrow>
             (case getitem (conf other) prop of
                Inl e \<Rightarrow> Inl e
              | Inr co \<Rightarrow>
                  update_highest_loop
                    \<lparr>vals = AList.update prop v (vals self),
                     conf = AList.update prop co (conf self)\<rparr> other props)))"

definition update_highest_confidence :: "guess \<Rightarrow> guess \<Rightarrow> error + guess" where
  "update_highest_confidence self other = update_highest_loop self other (map fst (vals other))"

section \<open>Double-precision arithmetic\<close>

text \<open>
  A Python float operation returns the exact result rounded to the nearest double, ties
  going to the double with an even significand. A double has a significand of 53 bits;
  the spacing of the doubles around \<open>x\<close> is \<open>2 ^ (e - 52)\<close> where \<open>2 ^ e \<le> \<bar>x\<bar> < 2 ^ (e + 1)\<close>,
  and never less than \<open>2 ^ - 1074\<close> (the subnormal numbers). \<open>round64\<close> is that rounding.
  A result beyond \<open>max_double\<close> is an infinity in Python, which the model does not
  have: \<open>in_range\<close> says that a rounded result is a finite double, and the statements
  about \<^verbatim>\<open>choose_int\<close> below are made for results in range.
\<close>

fun bit_length :: "nat \<Rightarrow> nat" where
  \<comment> \<open>the number of binary digits of \<open>n\<close>\<close>
  "bit_length n = (if n = 0 then 0 else Suc (bit_length (n div 2)))"

definition binade :: "real \<Rightarrow> int" where
  \<comment> \<open>for \<open>x > 0\<close>, the exponent \<open>e\<close> with \<open>2 ^ e \<le> x < 2 ^ (e + 1)\<close>\<close>
  "binade x =
     (if 1 \<le> x then int (bit_length (nat \<lfloor>x\<rfloor>)) - 1
      else - int (bit_length (nat (\<lceil>1 / x\<rceil> - 1))))"

definition pow2 :: "int \<Rightarrow> real" where
  "pow2 e = (if 0 \<le> e then 2 ^ nat e else 1 / 2 ^ nat (- e))"

definition rne :: "real \<Rightarrow> int" where
  \<comment> \<open>the nearest integer, the even one of two nearest\<close>
  "rne y =
     (let f = \<lfloor>y\<rfloor>; d = y - of_int f
      in if d < 1/2 then f else if 1/2 < d then f + 1 else if even f then f else f + 1)"

definition round64 :: "real \<Rightarrow> real" where
  "round64 x =
     (if x = 0 then 0
      else let q = max (binade \<bar>x\<bar> - 52) (- 1074)
           in of_int (rne (x / pow2 q)) * pow2 q)"

definition max_double :: real where
  \<comment> \<open>the largest finite double\<close>
  "max_double = (2 ^ 53 - 1) * 2 ^ 971"

definition in_range :: "real \<Rightarrow> bool" where
  "in_range x = (\<bar>x\<bar> \<le> max_double)"

definition fsub :: "real \<Rightarrow> real \<Rightarrow> real" where
  \<comment> \<open>\<^verbatim>\<open>a - b\<close> on floats\<close>
  "fsub a b = round64 (a - b)"

definition fmul :: "real \<Rightarrow> real \<Rightarrow> real" where
  \<comment> \<open>\<^verbatim>\<open>a * b\<close> on floats\<close>
  "fmul a b = round64 (a * b)"

section \<open>The scalar reconcilers\<close>

definition choose_int :: "'a \<times> real \<Rightarrow> 'a \<times> real \<Rightarrow> 'a \<times> real" where
  "choose_int g1 g2 =
     (let (v1, c1) = g1; (v2, c2) = g2
      in if v1 = v2 then (v1, fsub 1 (fmul (fsub 1 c1) (fsub 1 c2)))
         else if c1 > c2 then (v1, fsub c1 c2)
         else (v2, fsub c2 c1))"

definition is_space :: "char \<Rightarrow> bool" where
  \<comment> \<open>the characters \<^verbatim>\<open>str.strip()\<close> removes: space, tab, LF, VT, FF, CR\<close>
  "is_space c = (of_char c \<in> {32, 9, 10, 11, 12, 13 :: nat})"

definition strip :: "string \<Rightarrow> string" where
  "strip s = rev (dropWhile is_space (rev (dropWhile is_space s)))"

definition lower_char :: "char \<Rightarrow> char" where
  "lower_char c =
     (if 65 \<le> (of_char c :: nat) \<and> (of_char c :: nat) \<le> 90
      then char_of (of_char c + (32 :: nat)) else c)"

definition lower :: "string \<Rightarrow> string" where
  "lower s = map lower_char s"

definition choose_string :: "string \<times> real \<Rightarrow> string \<times> real \<Rightarrow> string \<times> real" where
  "choose_string g1 g2 =
     (let (v1, c1) = g1; (v2, c2) = g2;
          v1 = strip v1; v2 = strip v2;
          v1l = lower v1; v2l = lower v2;
          combined_prob = 1 - (1 - c1) * (1 - c2)
      in if v1l = v2l then (v1, combined_prob)
         else if v1l = ''the '' @ v2l then (v1, combined_prob)
         else if v2l = ''the '' @ v1l then (v2, combined_prob)
         else if sublist v2l v1l then (v2, combined_prob)
         else if sublist v1l v2l then (v1, combined_prob)
         else if c1 > c2 then (v1, c1 - c2)
         else (v2, c2 - c1))"

section \<open>Objects and the working list\<close>

text \<open>
  The merge functions mutate the Guess objects of a Python list in place and remove
  objects from the list. The model keeps the objects in a heap (a list of guesses, an
  object reference being an index into it) and the working list as a list of
  references. Each function takes the heap and the working list and returns both.
  Every reference of a working list is below the length of the heap.
\<close>

type_synonym ref = nat
type_synonym heap = "guess list"

definition similar_guesses :: "heap \<Rightarrow> ref list \<Rightarrow> string \<Rightarrow> ref list" where
  \<comment> \<open>\<^verbatim>\<open>[ guess for guess in guesses if prop in guess ]\<close>\<close>
  "similar_guesses h guesses prop = filter (\<lambda>g. has_key (vals (h ! g)) prop) guesses"

fun list_remove :: "heap \<Rightarrow> ref list \<Rightarrow> ref \<Rightarrow> error + ref list" where
  \<comment> \<open>\<^verbatim>\<open>guesses.remove(x)\<close>: removes the first item that is \<^verbatim>\<open>x\<close> or equal to it
      (a Guess compares as the dictionary of its values)\<close>
  "list_remove h [] x = Inl ValueError"
| "list_remove h (g # gs) x =
     (if g = x \<or> dict_eq (vals (h ! g)) (vals (h ! x)) then Inr gs
      else (case list_remove h gs x of Inl e \<Rightarrow> Inl e | Inr gs' \<Rightarrow> Inr (g # gs')))"

type_synonym chooser = "value \<times> real \<Rightarrow> value \<times> real \<Rightarrow> error + value \<times> real"

definition merge_similar_guesses_nocheck ::
  "heap \<Rightarrow> ref list \<Rightarrow> string \<Rightarrow> chooser \<Rightarrow> error + heap \<times> ref list" where
  "merge_similar_guesses_nocheck h guesses prop choose_fn =
     (case similar_guesses h guesses prop of
        g1 # g2 # _ \<Rightarrow>
          (if card (set (map fst (vals (h ! g1))) \<inter> set (map fst (vals (h ! g2)))) > 1
           then Inr (h, guesses)
           else
             bind_err (getitem (vals (h ! g1)) prop) (\<lambda>v1.
             bind_err (getitem (vals (h ! g2)) prop) (\<lambda>v2.
             bind_err (confidence (h ! g1) prop) (\<lambda>c1.
             bind_err (confidence (h ! g2) prop) (\<lambda>c2.
             bind_err (choose_fn (v1, c1) (v2, c2)) (\<lambda>(new_value, new_confidence).
               let h1 = h[g2 := set_confidence
                                  ((h ! g2)\<lparr>vals := AList.update prop new_value (vals (h ! g2))\<rparr>)
                                  prop new_confidence]
               in bind_err (update_guess (h1 ! g1) (h1 ! g2) None) (\<lambda>u.
                    let h2 = h1[g1 := u]
                    in bind_err (list_remove h2 guesses g2) (\<lambda>guesses'.
                         Inr (h2, guesses')))))))))
      | _ \<Rightarrow> Inl IndexError)"

partial_function (option) merge_similar_guesses ::
  "heap \<Rightarrow> ref list \<Rightarrow> string \<Rightarrow> chooser \<Rightarrow> (error + heap \<times> ref list) option" where
  "merge_similar_guesses h guesses prop choose_fn =
     (if length (similar_guesses h guesses prop) < 2 then Some (Inr (h, guesses))
      else if length (similar_guesses h guesses prop) = 2
      then Some (merge_similar_guesses_nocheck h guesses prop choose_fn)
      else
        (case merge_similar_guesses_nocheck h guesses prop choose_fn of
           Inl e \<Rightarrow> Some (Inl e)
         | Inr (h', guesses') \<Rightarrow> merge_similar_guesses h' guesses' prop choose_fn))"

section \<open>Append semantics\<close>

fun count_specs :: "string \<Rightarrow> nat" where
  \<comment> \<open>the conversion specifiers of a format string: each \<^verbatim>\<open>%\<close> that is not part of \<^verbatim>\<open>%%\<close>\<close>
  "count_specs (c # d # cs) =
     (if c = CHR ''%'' then (if d = CHR ''%'' then count_specs cs else Suc (count_specs cs))
      else count_specs (d # cs))"
| "count_specs cs = 0"

definition format_tuple :: "string \<Rightarrow> nat \<Rightarrow> error + unit" where
  \<comment> \<open>\<^verbatim>\<open>fmt % (a1, ..., an)\<close>: Python raises TypeError unless the tuple has one item per
      conversion specifier. The text built is only logged, so it is not kept.\<close>
  "format_tuple fmt nargs = (if nargs = count_specs fmt then Inr () else Inl TypeError)"

definition overwriting_fmt :: string where
  \<comment> \<open>the format string of the warning in \<^verbatim>\<open>merge_append_guesses\<close>\<close>
  "overwriting_fmt = ''overwriting property '' @ [char_of (34 :: nat)] @ ''%s''
                       @ [char_of (34 :: nat)] @ '' with value ''"

fun append_props :: "heap \<Rightarrow> ref \<Rightarrow> ref \<Rightarrow> string \<Rightarrow> string list \<Rightarrow> error + heap" where
  \<comment> \<open>the loop \<^verbatim>\<open>for prop2 in m\<close> of \<^verbatim>\<open>merge_append_guesses\<close>\<close>
  "append_props h merged m prop [] = Inr h"
| "append_props h merged m prop (prop2 # props) =
     (if prop = prop2 then
        bind_err (getitem (vals (h ! merged)) prop) (\<lambda>acc.
          case acc of
            VList xs \<Rightarrow>
              bind_err (getitem (vals (h ! m)) prop) (\<lambda>v.
                append_props
                  (h[merged := (h ! merged)
                       \<lparr>vals := AList.update prop (VList (xs @ [v])) (vals (h ! merged))\<rparr>])
                  merged m prop props)
          | _ \<Rightarrow> Inl AttributeError)
      else
        bind_err (if has_key (vals (h ! m)) prop2
                  then bind_err (getitem (vals (h ! m)) prop2) (\<lambda>v. format_tuple overwriting_fmt 2)
                  else Inr ()) (\<lambda>_.
        bind_err (getitem (vals (h ! m)) prop2) (\<lambda>v.
          append_props
            (h[merged := (h ! merged)\<lparr>vals := AList.update prop2 v (vals (h ! merged))\<rparr>])
            merged m prop props)))"

fun append_guesses_loop ::
  "heap \<Rightarrow> ref list \<Rightarrow> ref \<Rightarrow> string \<Rightarrow> ref list \<Rightarrow> error + heap \<times> ref list" where
  \<comment> \<open>the loop \<^verbatim>\<open>for m in similar[1:]\<close> of \<^verbatim>\<open>merge_append_guesses\<close>\<close>
  "append_guesses_loop h guesses merged prop [] = Inr (h, guesses)"
| "append_guesses_loop h guesses merged prop (m # ms) =
     bind_err (append_props h merged m prop (map fst (vals (h ! m)))) (\<lambda>h1.
     bind_err (list_remove h1 guesses m) (\<lambda>guesses'.
       append_guesses_loop h1 guesses' merged prop ms))"

definition merge_append_guesses ::
  "heap \<Rightarrow> ref list \<Rightarrow> string \<Rightarrow> error + heap \<times> ref list" where
  "merge_append_guesses h guesses prop =
     (case similar_guesses h guesses prop of
        [] \<Rightarrow> Inr (h, guesses)
      | merged # rest \<Rightarrow>
          bind_err (getitem (vals (h ! merged)) prop) (\<lambda>v.
            append_guesses_loop
              (h[merged := (h ! merged)
                   \<lparr>vals := AList.update prop (VList [v]) (vals (h ! merged))\<rparr>])
              guesses merged prop rest))"

section \<open>Final reduction\<close>

definition py_add :: "value \<Rightarrow> value \<Rightarrow> error + value" where
  \<comment> \<open>\<^verbatim>\<open>a + b\<close>\<close>
  "py_add a b =
     (case (a, b) of
        (VInt x, VInt y) \<Rightarrow> Inr (VInt (x + y))
      | (VStr x, VStr y) \<Rightarrow> Inr (VStr (x @ y))
      | (VList x, VList y) \<Rightarrow> Inr (VList (x @ y))
      | _ \<Rightarrow> Inl TypeError)"

definition is_list :: "value \<Rightarrow> bool" where
  "is_list v = (case v of VList _ \<Rightarrow> True | _ \<Rightarrow> False)"

definition list_of_set :: "(value list \<Rightarrow> value list) \<Rightarrow> value \<Rightarrow> error + value" where
  \<comment> \<open>\<^verbatim>\<open>list(set(v))\<close>: the distinct items of a list (a list item is unhashable), the
      distinct characters of a string; an integer is not iterable. The order in which
      Python iterates the set is decided by the hashes of the items: \<open>set_order xs\<close> stands
      for \<^verbatim>\<open>list(set(xs))\<close> on a list \<open>xs\<close> of hashable items.\<close>
  "list_of_set set_order v =
     (case v of
        VList xs \<Rightarrow> if list_ex is_list xs then Inl TypeError else Inr (VList (set_order xs))
      | VStr s \<Rightarrow> Inr (VList (set_order (map (\<lambda>c. VStr [c]) s)))
      | VInt _ \<Rightarrow> Inl TypeError)"

fun append_loop :: "heap \<Rightarrow> ref \<Rightarrow> ref \<Rightarrow> string list \<Rightarrow> error + heap" where
  \<comment> \<open>the loop \<^verbatim>\<open>for prop in append\<close> in the body of the main loop of \<^verbatim>\<open>merge_all\<close>\<close>
  "append_loop h result g [] = Inr h"
| "append_loop h result g (prop # props) =
     (if has_key (vals (h ! g)) prop then
        bind_err (getitem (vals (h ! g)) prop) (\<lambda>v.
        bind_err (py_add (case map_of (vals (h ! result)) prop of
                            None \<Rightarrow> VList [] | Some old \<Rightarrow> old) (VList [v])) (\<lambda>new.
        bind_err (confidence (h ! g) prop) (\<lambda>c.
          let h1 = h[result := set_guess (h ! result) prop new (Some c)]
          in bind_err (delitem (vals (h1 ! g)) prop) (\<lambda>d.
               append_loop (h1[g := (h1 ! g)\<lparr>vals := d\<rparr>]) result g props))))
      else append_loop h result g props)"

fun merge_loop :: "heap \<Rightarrow> ref \<Rightarrow> ref list \<Rightarrow> string list \<Rightarrow> error + heap" where
  \<comment> \<open>the loop \<^verbatim>\<open>for g in guesses[1:]\<close> of \<^verbatim>\<open>merge_all\<close>\<close>
  "merge_loop h result [] append_list = Inr h"
| "merge_loop h result (g # gs) append_list =
     bind_err (append_loop h result g append_list) (\<lambda>h1.
     bind_err (update_highest_confidence (h1 ! result) (h1 ! g)) (\<lambda>r.
       merge_loop (h1[result := r]) result gs append_list))"

fun prune :: "guess \<Rightarrow> string list \<Rightarrow> error + guess" where
  \<comment> \<open>the loop \<^verbatim>\<open>for p in result.keys()\<close> of \<^verbatim>\<open>merge_all\<close>, over the list of keys taken
      before the loop\<close>
  "prune r [] = Inr r"
| "prune r (p # ps) =
     bind_err (confidence r p) (\<lambda>c.
       if c < 0.05 then bind_err (delitem (vals r) p) (\<lambda>d. prune (r\<lparr>vals := d\<rparr>) ps)
       else prune r ps)"

fun unique_loop ::
  "(value list \<Rightarrow> value list) \<Rightarrow> guess \<Rightarrow> string list \<Rightarrow> error + guess" where
  \<comment> \<open>the last loop of \<^verbatim>\<open>merge_all\<close>: appendable properties get unique values\<close>
  "unique_loop set_order r [] = Inr r"
| "unique_loop set_order r (prop # props) =
     (if has_key (vals r) prop then
        bind_err (getitem (vals r) prop) (\<lambda>v.
        bind_err (list_of_set set_order v) (\<lambda>u.
          unique_loop set_order (r\<lparr>vals := AList.update prop u (vals r)\<rparr>) props))
      else unique_loop set_order r props)"

definition merge_all ::
  "(value list \<Rightarrow> value list) \<Rightarrow> heap \<Rightarrow> ref list \<Rightarrow> string list \<Rightarrow> error + heap \<times> guess" where
  \<comment> \<open>returns the heap after the merge and the guess returned (the final state of the
      first object of the list, or a new empty Guess); \<open>set_order\<close> is the iteration order
      of Python's sets, see \<open>list_of_set\<close>\<close>
  "merge_all set_order h guesses append_list =
     (case guesses of
        [] \<Rightarrow> Inr (h, Guess [] None)
      | result # rest \<Rightarrow>
          bind_err (merge_loop h result rest append_list) (\<lambda>h1.
          bind_err (prune (h1 ! result) (map fst (vals (h1 ! result)))) (\<lambda>r1.
          bind_err (unique_loop set_order r1 append_list) (\<lambda>r2.
            Inr (h1[result := r2], r2)))))"

section \<open>Guesses with a confidence for every value\<close>

definition well_formed :: "guess \<Rightarrow> bool" where
  \<comment> \<open>every key of the values has a confidence\<close>
  "well_formed g = list_all (has_key (conf g)) (map fst (vals g))"

definition keeps_own :: "guess \<Rightarrow> guess \<Rightarrow> string \<Rightarrow> bool" where
  \<comment> \<open>the test \<^verbatim>\<open>prop in self and self._confidence[prop] >= other._confidence[prop]\<close>,
      when both confidences exist\<close>
  "keeps_own self other prop =
     (has_key (vals self) prop \<and>
      (case (map_of (conf self) prop, map_of (conf other) prop) of
         (Some cs, Some co) \<Rightarrow> cs \<ge> co
       | _ \<Rightarrow> False))"

section \<open>Example inputs\<close>

definition two_shared :: heap where
  \<comment> \<open>three guesses that all carry \<^verbatim>\<open>season\<close> and \<^verbatim>\<open>episodeNumber\<close>\<close>
  "two_shared =
     [Guess [(''season'', VInt 1), (''episodeNumber'', VInt 2)] (Some (4/5)),
      Guess [(''season'', VInt 2), (''episodeNumber'', VInt 2)] (Some (1/2)),
      Guess [(''season'', VInt 3), (''episodeNumber'', VInt 4)] (Some (1/2))]"

definition int_chooser :: chooser where
  \<comment> \<open>\<^verbatim>\<open>choose_int\<close> passed as the \<^verbatim>\<open>choose\<close> argument\<close>
  "int_chooser a b = Inr (choose_int a b)"

definition two_episodes :: heap where
  \<comment> \<open>two guesses that each carry one \<^verbatim>\<open>episodeNumber\<close>\<close>
  "two_episodes =
     [Guess [(''episodeNumber'', VInt 1)] (Some (4/5)),
      Guess [(''episodeNumber'', VInt 2)] (Some (4/5))]"

definition episode_and_season :: heap where
  \<comment> \<open>two guesses that carry \<^verbatim>\<open>episodeNumber\<close>, the second one \<^verbatim>\<open>season\<close> as well\<close>
  "episode_and_season =
     [Guess [(''episodeNumber'', VInt 1)] (Some (4/5)),
      Guess [(''episodeNumber'', VInt 2), (''season'', VInt 1)] (Some (4/5))]"

definition unlikely_episode :: heap where
  \<comment> \<open>the second example of the docstring of \<^verbatim>\<open>merge_all\<close>\<close>
  "unlikely_episode =
     [Guess [(''episodeNumber'', VInt 27)] (Some (2/100)),
      Guess [(''season'', VInt 1)] (Some (2/10))]"

definition tie_self :: guess where
  "tie_self = \<lparr>vals = [(''season'', VInt 1), (''title'', VStr ''a'')],
               conf = [(''season'', 1/2), (''title'', 1/5)]\<rparr>"

definition tie_other :: guess where
  "tie_other = \<lparr>vals = [(''season'', VInt 2), (''title'', VStr ''b''), (''year'', VInt 2000)],
                conf = [(''season'', 1/2), (''title'', 9/10), (''year'', 1/10)]\<rparr>"

section \<open>Properties of the reconcilers\<close>

lemma rne_error: "\<bar>of_int (rne y) - y\<bar> \<le> 1/2"
proof -
  have "of_int \<lfloor>y\<rfloor> \<le> y" "y < of_int \<lfloor>y\<rfloor> + 1" by linarith+
  then show ?thesis by (auto simp: rne_def Let_def)
qed

lemma rne_le_int:
  assumes "y \<le> of_int n" shows "rne y \<le> n"
proof -
  have fl: "\<lfloor>y\<rfloor> \<le> n" using assms by (simp add: floor_le_iff)
  show ?thesis
  proof (cases "y = of_int \<lfloor>y\<rfloor>")
    case True
    then have "y - of_int \<lfloor>y\<rfloor> = 0" by simp
    then have "rne y = \<lfloor>y\<rfloor>" by (simp add: rne_def Let_def)
    with fl show ?thesis by simp
  next
    case False
    then have "of_int \<lfloor>y\<rfloor> < y" using of_int_floor_le [of y] by linarith
    with assms have "of_int \<lfloor>y\<rfloor> < (of_int n :: real)" by linarith
    then have "\<lfloor>y\<rfloor> < n" by simp
    moreover have "rne y \<le> \<lfloor>y\<rfloor> + 1" by (simp add: rne_def Let_def)
    ultimately show ?thesis by linarith
  qed
qed

lemma rne_ge_int:
  assumes "of_int n \<le> y" shows "n \<le> rne y"
proof -
  have "n \<le> \<lfloor>y\<rfloor>" using assms by (simp add: le_floor_iff)
  moreover have "\<lfloor>y\<rfloor> \<le> rne y" by (simp add: rne_def Let_def)
  ultimately show ?thesis by linarith
qed

lemma bit_length_pos: "0 < n \<Longrightarrow> 0 < bit_length n"
  by (subst bit_length.simps) simp

lemma binade_unit:
  assumes "0 < x" "x \<le> 1" shows "binade x \<le> 0"
proof (cases "x = 1")
  case True
  have "bit_length (Suc 0) = Suc 0" by (subst bit_length.simps) simp
  with True show ?thesis by (simp add: binade_def)
next
  case False
  with assms have "x < 1" by simp
  then show ?thesis by (simp add: binade_def)
qed

lemma binade_below_one:
  assumes "0 < x" "x < 1" shows "binade x \<le> - 1"
proof -
  have "1 < 1 / x" using assms by simp
  then have "2 \<le> \<lceil>1 / x\<rceil>" by linarith
  then have "0 < nat (\<lceil>1 / x\<rceil> - 1)" by simp
  then have "0 < bit_length (nat (\<lceil>1 / x\<rceil> - 1))" by (rule bit_length_pos)
  with assms show ?thesis by (simp add: binade_def)
qed

lemma round64_below_one:
  assumes "0 < x" "x < 1"
  shows "0 \<le> round64 x \<and> round64 x \<le> 1 \<and> \<bar>round64 x - x\<bar> \<le> 1 / 2 ^ 54"
proof -
  define q where "q = max (binade \<bar>x\<bar> - 52) (- 1074)"
  define n where "n = nat (- q)"
  have "binade \<bar>x\<bar> \<le> - 1" using binade_below_one [OF assms] assms by simp
  then have q: "q \<le> - 53" by (simp add: q_def)
  then have n: "53 \<le> n" and qn: "q = - int n" by (simp_all add: n_def)
  have p: "pow2 q = 1 / 2 ^ n" using q by (simp add: pow2_def n_def)
  have "round64 x = of_int (rne (x / pow2 q)) * pow2 q"
    using assms by (simp add: round64_def q_def Let_def)
  then have r: "round64 x = of_int (rne (x * 2 ^ n)) / 2 ^ n"
    by (simp add: p)
  have e: "\<bar>of_int (rne (x * 2 ^ n)) - x * 2 ^ n\<bar> \<le> 1/2" by (rule rne_error)
  have "\<bar>of_int (rne (x * 2 ^ n)) - x * 2 ^ n\<bar> / 2 ^ n \<le> (1/2) / 2 ^ n"
    by (rule divide_right_mono [OF e]) simp
  moreover have "\<bar>of_int (rne (x * 2 ^ n)) - x * 2 ^ n\<bar> / 2 ^ n = \<bar>round64 x - x\<bar>"
  proof -
    have "(of_int (rne (x * 2 ^ n)) - x * 2 ^ n) / 2 ^ n = round64 x - x"
      by (simp add: r diff_divide_distrib)
    then have "\<bar>(of_int (rne (x * 2 ^ n)) - x * 2 ^ n) / 2 ^ n\<bar> = \<bar>round64 x - x\<bar>"
      by (simp only:)
    moreover have "\<bar>(of_int (rne (x * 2 ^ n)) - x * 2 ^ n) / 2 ^ n\<bar>
        = \<bar>of_int (rne (x * 2 ^ n)) - x * 2 ^ n\<bar> / 2 ^ n"
      by (simp add: abs_divide)
    ultimately show ?thesis by simp
  qed
  moreover have "(1/2) / 2 ^ n \<le> (1 / 2 ^ 54 :: real)"
  proof -
    have "(2::real) ^ 54 \<le> 2 ^ Suc n" using n by (intro power_increasing) simp_all
    then have "1 / (2::real) ^ Suc n \<le> 1 / 2 ^ 54" by (intro divide_left_mono) simp_all
    then show ?thesis by simp
  qed
  ultimately have err: "\<bar>round64 x - x\<bar> \<le> 1 / 2 ^ 54" by linarith
  have "x * 2 ^ n \<le> of_int (2 ^ n)" using assms by simp
  then have "rne (x * 2 ^ n) \<le> 2 ^ n" by (rule rne_le_int)
  then have "(of_int (rne (x * 2 ^ n)) :: real) \<le> of_int (2 ^ n)" by (simp only: of_int_le_iff)
  then have up: "round64 x \<le> 1" by (simp add: r divide_le_eq)
  have "of_int 0 \<le> x * 2 ^ n" using assms by simp
  then have "0 \<le> rne (x * 2 ^ n)" by (rule rne_ge_int)
  then have lo: "0 \<le> round64 x" by (simp add: r)
  from lo up err show ?thesis by simp
qed

lemma round64_one: "round64 1 = 1"
  by code_simp

lemma round64_unit:
  assumes "0 \<le> x" "x \<le> 1"
  shows "0 \<le> round64 x \<and> round64 x \<le> 1 \<and> \<bar>round64 x - x\<bar> \<le> 1 / 2 ^ 54"
proof -
  consider "x = 0" | "x = 1" | "0 < x" "x < 1" using assms by linarith
  then show ?thesis
  proof cases
    case 1 then show ?thesis by (simp add: round64_def)
  next
    case 2 then show ?thesis by (simp add: round64_one)
  next
    case 3 then show ?thesis by (rule round64_below_one)
  qed
qed

lemma combined_double_bound:
  assumes "0 \<le> c1" "c1 \<le> 1" "0 \<le> c2" "c2 \<le> 1"
  shows "max c1 c2 - 3 / 2 ^ 54 \<le> fsub 1 (fmul (fsub 1 c1) (fsub 1 c2))"
    and "fsub 1 (fmul (fsub 1 c1) (fsub 1 c2)) \<le> 1"
proof -
  define a where "a = fsub 1 c1"
  define b where "b = fsub 1 c2"
  define p where "p = fmul a b"
  define r where "r = fsub 1 p"
  have a: "0 \<le> a \<and> a \<le> 1 \<and> \<bar>a - (1 - c1)\<bar> \<le> 1 / 2 ^ 54"
    unfolding a_def fsub_def using assms by (intro round64_unit) simp_all
  have b: "0 \<le> b \<and> b \<le> 1 \<and> \<bar>b - (1 - c2)\<bar> \<le> 1 / 2 ^ 54"
    unfolding b_def fsub_def using assms by (intro round64_unit) simp_all
  have ab0: "0 \<le> a * b" using a b by simp
  have aba: "a * b \<le> a" using a b by (simp add: mult_left_le)
  have abb: "a * b \<le> b" using a b by (simp add: mult_left_le_one_le)
  have ab1: "a * b \<le> 1" using aba a by linarith
  have p: "0 \<le> p \<and> p \<le> 1 \<and> \<bar>p - a * b\<bar> \<le> 1 / 2 ^ 54"
    unfolding p_def fmul_def using ab0 ab1 by (intro round64_unit)
  have r: "0 \<le> r \<and> r \<le> 1 \<and> \<bar>r - (1 - p)\<bar> \<le> 1 / 2 ^ 54"
    unfolding r_def fsub_def using p by (intro round64_unit) simp_all
  have "c1 - 3 / 2 ^ 54 \<le> r" using a p r aba by linarith
  moreover have "c2 - 3 / 2 ^ 54 \<le> r" using b p r abb by linarith
  ultimately show "max c1 c2 - 3 / 2 ^ 54 \<le> fsub 1 (fmul (fsub 1 c1) (fsub 1 c2))"
    unfolding r_def p_def a_def b_def by (simp add: max_def)
  show "fsub 1 (fmul (fsub 1 c1) (fsub 1 c2)) \<le> 1"
    using r unfolding r_def p_def a_def b_def by simp
qed

lemma one_le_max_double: "1 \<le> max_double"
proof -
  have "(1::real) \<le> 2 ^ 53 - 1" by simp
  moreover have "(1::real) \<le> 2 ^ 971" by (rule one_le_power) simp
  ultimately have "(1::real) * 1 \<le> (2 ^ 53 - 1) * 2 ^ 971"
    by (intro mult_mono) simp_all
  then show ?thesis by (simp add: max_double_def)
qed

lemma in_range_unit: "\<bar>x\<bar> \<le> 1 \<Longrightarrow> in_range x"
  using one_le_max_double by (simp add: in_range_def)

lemma double_tenth: "round64 (1/10) = 3602879701896397 / 36028797018963968"
  by code_simp

lemma double_tenth_steps:
  "fsub 1 (3602879701896397 / 36028797018963968) = 8106479329266893 / 9007199254740992"
  "fsub 1 0 = 1"
  "fmul (8106479329266893 / 9007199254740992) 1 = 8106479329266893 / 9007199254740992"
  "fsub 1 (8106479329266893 / 9007199254740992) = 900719925474099 / 9007199254740992"
  by code_simp+

lemma dyadic_steps:
  "fsub 1 (1/2) = 1/2" "fmul (1/2) (1/2) = 1/4" "fsub 1 (1/4) = 3/4"
  "round64 (1/2) = 1/2" "round64 0 = 0"
  by code_simp+

text \<open>
  C5 as stated: for confidences in \<open>[0, 1]\<close> the combined confidence of equal values is
  at least \<open>max c1 c2\<close>. It fails in double precision: with \<^verbatim>\<open>c1 = 0.1\<close> (the double
  nearest to one tenth) and \<^verbatim>\<open>c2 = 0\<close>, \<^verbatim>\<open>1 - (1 - c1) * (1 - c2)\<close> is computed as
  \<^verbatim>\<open>0.09999999999999998\<close>, which is below \<^verbatim>\<open>c1\<close>.
\<close>

theorem choose_int_bound_counterexample:
  "(0::real) \<le> round64 (1/10) \<and> round64 (1/10) \<le> 1
   \<and> choose_int (13::int, round64 (1/10)) (13, 0)
       = (13, 900719925474099 / 9007199254740992)
   \<and> snd (choose_int (13::int, round64 (1/10)) (13, 0)) < max (round64 (1/10)) 0"
  by (simp add: choose_int_def double_tenth double_tenth_steps)

text \<open>
  C5, amended. \<^verbatim>\<open>choose_int\<close> on equal values returns that value with the confidence
  \<^verbatim>\<open>1 - (1 - c1) * (1 - c2)\<close>, each operation rounded to double precision. For
  confidences in \<open>[0, 1]\<close> that confidence is at most 1 and can fall below \<open>max c1 c2\<close>
  only by rounding: by no more than \<open>3 / 2 ^ 54\<close>. On different values it returns the
  value of higher confidence, and the second value whenever the first confidence is
  not strictly higher, with the rounded difference \<open>\<bar>c1 - c2\<bar>\<close> as confidence; so on an
  exact tie the second value wins, with confidence 0.
\<close>

theorem choose_int_double_spec:
  fixes v v1 v2 :: 'a
  shows
  "(in_range (fmul (fsub 1 c1) (fsub 1 c2)) \<longrightarrow>
      choose_int (v, c1) (v, c2) = (v, fsub 1 (fmul (fsub 1 c1) (fsub 1 c2))))
   \<and> (0 \<le> c1 \<and> c1 \<le> 1 \<and> 0 \<le> c2 \<and> c2 \<le> 1 \<longrightarrow>
      max c1 c2 - 3 / 2 ^ 54 \<le> snd (choose_int (v, c1) (v, c2))
      \<and> snd (choose_int (v, c1) (v, c2)) \<le> 1)
   \<and> (v1 \<noteq> v2 \<and> in_range (round64 \<bar>d1 - d2\<bar>) \<longrightarrow>
      choose_int (v1, d1) (v2, d2) = (if d1 > d2 then v1 else v2, round64 \<bar>d1 - d2\<bar>))
   \<and> (v1 \<noteq> v2 \<longrightarrow> choose_int (v1, d) (v2, d) = (v2, 0))"
proof (intro conjI impI)
  show "choose_int (v, c1) (v, c2) = (v, fsub 1 (fmul (fsub 1 c1) (fsub 1 c2)))"
    by (simp add: choose_int_def)
next
  assume h: "0 \<le> c1 \<and> c1 \<le> 1 \<and> 0 \<le> c2 \<and> c2 \<le> 1"
  have e: "snd (choose_int (v, c1) (v, c2)) = fsub 1 (fmul (fsub 1 c1) (fsub 1 c2))"
    by (simp add: choose_int_def)
  show "max c1 c2 - 3 / 2 ^ 54 \<le> snd (choose_int (v, c1) (v, c2))"
    unfolding e using h by (intro combined_double_bound(1)) simp_all
  show "snd (choose_int (v, c1) (v, c2)) \<le> 1"
    unfolding e using h by (intro combined_double_bound(2)) simp_all
next
  assume h: "v1 \<noteq> v2 \<and> in_range (round64 \<bar>d1 - d2\<bar>)"
  show "choose_int (v1, d1) (v2, d2) = (if d1 > d2 then v1 else v2, round64 \<bar>d1 - d2\<bar>)"
  proof (cases "d1 > d2")
    case True
    then have "\<bar>d1 - d2\<bar> = d1 - d2" by simp
    with True h show ?thesis by (simp add: choose_int_def fsub_def)
  next
    case False
    then have "\<bar>d1 - d2\<bar> = d2 - d1" by simp
    with False h show ?thesis by (simp add: choose_int_def fsub_def)
  qed
next
  assume "v1 \<noteq> v2"
  then show "choose_int (v1, d) (v2, d) = (v2, 0)"
    by (simp add: choose_int_def fsub_def round64_def)
qed

theorem choose_int_double_spec_witness:
  "in_range (fmul (fsub 1 (1/2)) (fsub 1 (1/2)))
   \<and> (0::real) \<le> 1/2 \<and> (1/2::real) \<le> 1 \<and> (1::int) \<noteq> 2
   \<and> in_range (round64 \<bar>3/4 - 1/4\<bar>)
   \<and> choose_int (13::int, 1/2) (13, 1/2) = (13, 3/4)
   \<and> max (1/2) (1/2) - 3 / 2 ^ 54 \<le> snd (choose_int (13::int, 1/2) (13, 1/2))
   \<and> choose_int (1::int, 3/4) (2, 1/4) = (1, 1/2)
   \<and> choose_int (1::int, 1/2) (2, 1/2) = (2, 0)"
proof -
  have r1: "in_range (fmul (fsub 1 (1/2)) (fsub 1 (1/2)))"
    by (simp add: dyadic_steps in_range_unit)
  have r2: "in_range (round64 \<bar>3/4 - 1/4\<bar>)"
    by (simp add: dyadic_steps in_range_unit)
  have ne: "(1::int) \<noteq> 2" by simp
  note t = choose_int_double_spec
    [where v = "13::int" and ?c1.0 = "1/2" and ?c2.0 = "1/2"
       and ?v1.0 = "1::int" and ?v2.0 = "2::int" and ?d1.0 = "3/4" and ?d2.0 = "1/4"
       and d = "1/2"]
  from t r1 have a: "choose_int (13::int, 1/2) (13, 1/2)
      = (13, fsub 1 (fmul (fsub 1 (1/2)) (fsub 1 (1/2))))" by blast
  from t have b: "max (1/2) (1/2) - 3 / 2 ^ 54 \<le> snd (choose_int (13::int, 1/2) (13, 1/2))"
    by simp
  from t ne r2 have c: "choose_int (1::int, 3/4) (2, 1/4)
      = (if (3/4::real) > 1/4 then 1 else 2, round64 \<bar>3/4 - 1/4\<bar>)" by blast
  from t ne have d: "choose_int (1::int, 1/2) (2, 1/2) = (2, 0)" by blast
  from a have a': "choose_int (13::int, 1/2) (13, 1/2) = (13, 3/4)"
    by (simp add: dyadic_steps)
  from c have c': "choose_int (1::int, 3/4) (2, 1/4) = (1, 1/2)"
    by (simp add: dyadic_steps)
  from r1 r2 a' b c' d show ?thesis by simp
qed











lemma choose_string_value: "fst (choose_string (v1, c1) (v2, c2)) \<in> {strip v1, strip v2}"
  by (simp add: choose_string_def Let_def)

text \<open>
  C7 as stated: the value returned by \<^verbatim>\<open>choose_string\<close> is one of the two strings
  exactly as passed in. It fails on strings with surrounding whitespace: the function
  rebinds \<^verbatim>\<open>v1, v2 = v1.strip(), v2.strip()\<close> and returns the trimmed strings.
\<close>

theorem choose_string_original_counterexample:
  "fst (choose_string ('' A '', 1/2) (''B '', 1/5)) = ''A''
   \<and> fst (choose_string ('' A '', 1/2) (''B '', 1/5)) \<notin> {'' A '', ''B ''}"
  by code_simp

text \<open>
  C7, amended. The value returned by \<^verbatim>\<open>choose_string\<close> is always one of the two input
  strings after \<^verbatim>\<open>strip()\<close>, a contiguous part of that input and so in its original
  casing: lower-casing is used for the comparison only, trimming is not.
\<close>

theorem choose_string_returns_stripped_input:
  "(fst (choose_string (v1, c1) (v2, c2)) = strip v1
    \<or> fst (choose_string (v1, c1) (v2, c2)) = strip v2)
   \<and> sublist (strip v1) v1 \<and> sublist (strip v2) v2"
proof -
  have sub: "sublist (strip s) s" for s
  proof -
    have "suffix (dropWhile is_space s) s" by (rule suffix_dropWhile)
    moreover have "prefix (strip s) (dropWhile is_space s)"
      unfolding strip_def
      by (metis suffix_dropWhile suffix_to_prefix rev_rev_ident)
    ultimately show ?thesis
      by (meson prefix_imp_sublist suffix_imp_sublist sublist_order.order_trans)
  qed
  show ?thesis using choose_string_value [of v1 c1 v2 c2] sub by auto
qed

section \<open>Pairwise merging\<close>

lemma nocheck_bails:
  assumes "similar_guesses h guesses prop = g1 # g2 # rest"
    and "1 < card (set (map fst (vals (h ! g1))) \<inter> set (map fst (vals (h ! g2))))"
  shows "merge_similar_guesses_nocheck h guesses prop choose_fn = Inr (h, guesses)"
  using assms by (simp add: merge_similar_guesses_nocheck_def)

lemma merge_similar_guesses_stuck:
  assumes "2 < length (similar_guesses h guesses prop)"
    and "merge_similar_guesses_nocheck h guesses prop choose_fn = Inr (h, guesses)"
  shows "merge_similar_guesses h guesses prop choose_fn = None"
proof (rule ccontr)
  assume "merge_similar_guesses h guesses prop choose_fn \<noteq> None"
  then obtain y where y: "merge_similar_guesses h guesses prop choose_fn = Some y" by auto
  have "\<not> (2 < length (similar_guesses h guesses prop)
            \<and> merge_similar_guesses_nocheck h guesses prop choose_fn = Inr (h, guesses))"
  proof (rule merge_similar_guesses.raw_induct [OF _ y])
    fix f :: "heap \<Rightarrow> ref list \<Rightarrow> string \<Rightarrow> chooser \<Rightarrow> (error + heap \<times> ref list) option"
    fix h' guesses' p c r
    assume IH: "\<And>h guesses p c y. f h guesses p c = Some y \<Longrightarrow>
        \<not> (2 < length (similar_guesses h guesses p)
            \<and> merge_similar_guesses_nocheck h guesses p c = Inr (h, guesses))"
    assume step: "(if length (similar_guesses h' guesses' p) < 2 then Some (Inr (h', guesses'))
         else if length (similar_guesses h' guesses' p) = 2
         then Some (merge_similar_guesses_nocheck h' guesses' p c)
         else (case merge_similar_guesses_nocheck h' guesses' p c of
                 Inl e \<Rightarrow> Some (Inl e)
               | Inr (h'', guesses'') \<Rightarrow> f h'' guesses'' p c)) = Some r"
    show "\<not> (2 < length (similar_guesses h' guesses' p)
            \<and> merge_similar_guesses_nocheck h' guesses' p c = Inr (h', guesses'))"
    proof
      assume st: "2 < length (similar_guesses h' guesses' p)
            \<and> merge_similar_guesses_nocheck h' guesses' p c = Inr (h', guesses')"
      with step have "f h' guesses' p c = Some r" by simp
      from IH [OF this] st show False by simp
    qed
  qed
  with assms show False by simp
qed

lemma two_shared_similar: "similar_guesses two_shared [0, 1, 2] ''season'' = [0, 1, 2]"
  by code_simp

lemma two_shared_common:
  "1 < card (set (map fst (vals (two_shared ! 0))) \<inter> set (map fst (vals (two_shared ! 1))))"
  by code_simp

text \<open>
  C4. When the first two guesses that carry \<^verbatim>\<open>prop\<close> have more than one property name
  in common, \<^verbatim>\<open>_merge_similar_guesses_nocheck\<close> returns with every object and the working
  list as they were.
\<close>

theorem nocheck_ambiguous_unchanged:
  assumes "similar_guesses h guesses prop = g1 # g2 # rest"
    and "1 < card (set (map fst (vals (h ! g1))) \<inter> set (map fst (vals (h ! g2))))"
  shows "merge_similar_guesses_nocheck h guesses prop choose_fn = Inr (h, guesses)"
  using assms by (rule nocheck_bails)

theorem nocheck_ambiguous_unchanged_witness:
  "similar_guesses two_shared [0, 1, 2] ''season'' = 0 # 1 # [2]
   \<and> 1 < card (set (map fst (vals (two_shared ! 0))) \<inter> set (map fst (vals (two_shared ! 1))))
   \<and> merge_similar_guesses_nocheck two_shared [0, 1, 2] ''season'' int_chooser
       = Inr (two_shared, [0, 1, 2])"
  using nocheck_ambiguous_unchanged [of two_shared "[0, 1, 2]" "''season''" 0 1 "[2]" int_chooser]
    two_shared_similar two_shared_common by simp

text \<open>
  C3 fails when a pairwise step is skipped as ambiguous while more than two guesses
  carry the property: the step changes nothing, and \<^verbatim>\<open>merge_similar_guesses\<close> calls
  itself on the same list again, without end (in CPython, until the recursion limit
  raises RuntimeError). On three guesses that all carry \<^verbatim>\<open>season\<close> and
  \<^verbatim>\<open>episodeNumber\<close> the function returns no result.
\<close>

theorem merge_similar_guesses_ambiguous_diverges:
  "merge_similar_guesses two_shared [0, 1, 2] ''season'' int_chooser = None"
proof -
  have "2 < length (similar_guesses two_shared [0, 1, 2] ''season'')"
    unfolding two_shared_similar by simp
  moreover have "merge_similar_guesses_nocheck two_shared [0, 1, 2] ''season'' int_chooser
                 = Inr (two_shared, [0, 1, 2])"
    using nocheck_bails [of two_shared "[0, 1, 2]" "''season''" 0 1 "[2]" int_chooser]
      two_shared_similar two_shared_common by simp
  ultimately show ?thesis by (rule merge_similar_guesses_stuck)
qed

section \<open>Appending and the final reduction\<close>

text \<open>
  C1 fails on the code. \<^verbatim>\<open>merge_all\<close> takes the first guess as the running result and
  never turns its \<^verbatim>\<open>episodeNumber\<close> into a list: with a second guess carrying
  \<^verbatim>\<open>episodeNumber\<close>, \<^verbatim>\<open>result.get(prop, []) + [g[prop]]\<close> adds an integer and a list, and
  with the first guess alone \<^verbatim>\<open>set(result[prop])\<close> iterates an integer. Both raise
  TypeError.
\<close>

theorem merge_all_first_guess_episode_fails:
  "merge_all set_order two_episodes [0, 1] [''episodeNumber''] = Inl TypeError
   \<and> merge_all set_order two_episodes [0] [''episodeNumber''] = Inl TypeError"
  by code_simp

text \<open>
  C2 fails on the code. When a later guess carrying \<^verbatim>\<open>prop\<close> has another property,
  \<^verbatim>\<open>merge_append_guesses\<close> formats the warning with one conversion specifier and a
  tuple of two items, which raises TypeError: the operation is aborted.
\<close>

theorem merge_append_guesses_other_property_fails:
  "count_specs overwriting_fmt = 1
   \<and> merge_append_guesses episode_and_season [0, 1] ''episodeNumber'' = Inl TypeError"
  by code_simp

section \<open>Values and confidences of a Guess\<close>

text \<open>
  C9 fails on the code. \<^verbatim>\<open>Guess.set\<close> without a confidence stores the value and leaves
  the confidences alone, so on a key that was absent the guess has a value without a
  confidence, and \<^verbatim>\<open>confidence\<close> raises KeyError instead of returning 0.
\<close>

theorem set_without_confidence_breaks_invariant:
  "has_key (vals (set_guess (Guess [] None) ''season'' (VInt 2) None)) ''season''
   \<and> confidence (set_guess (Guess [] None) ''season'' (VInt 2) None) ''season'' = Inl KeyError"
  by code_simp

lemma Guess_well_formed: "well_formed (Guess d c)"
  by (simp add: well_formed_def Guess_def Let_def has_key_def list_all_iff comp_def)

lemma prune_keeps_conf: "prune r ps = Inr r' \<Longrightarrow> conf r' = conf r"
proof (induction ps arbitrary: r)
  case Nil
  then show ?case by simp
next
  case (Cons p ps)
  then show ?case
    by (fastforce simp: bind_err_def split: sum.splits if_splits)
qed

lemma Guess_conf_keys: "map fst (conf (Guess d c)) = map fst (vals (Guess d c))"
  by (simp add: Guess_def Let_def comp_def)

text \<open>
  C10 as stated: \<^verbatim>\<open>confidence(k)\<close> fails for every \<open>k\<close> absent from the values, also
  after \<open>k\<close> was pruned by \<^verbatim>\<open>merge_all\<close>. It fails on the second example of the
  docstring of \<^verbatim>\<open>merge_all\<close>: \<^verbatim>\<open>episodeNumber\<close> is pruned from the values of the result,
  and its confidence is still returned.
\<close>

theorem confidence_after_pruning_counterexample:
  "merge_all remdups unlikely_episode [0, 1] [] =
     Inr ([\<lparr>vals = [(''season'', VInt 1)],
            conf = [(''episodeNumber'', 1/50), (''season'', 1/5)]\<rparr>,
           \<lparr>vals = [(''season'', VInt 1)], conf = [(''season'', 1/5)]\<rparr>],
          \<lparr>vals = [(''season'', VInt 1)],
           conf = [(''episodeNumber'', 1/50), (''season'', 1/5)]\<rparr>)
   \<and> \<not> has_key [(''season'', VInt 1)] ''episodeNumber''
   \<and> confidence \<lparr>vals = [(''season'', VInt 1)],
                  conf = [(''episodeNumber'', 1/50), (''season'', 1/5)]\<rparr> ''episodeNumber''
       = Inr (1/50)"
  by code_simp

text \<open>
  C10, amended. \<^verbatim>\<open>confidence(k)\<close> fails with KeyError when \<open>k\<close> has no entry in the
  confidences of the guess, which is the case for every \<open>k\<close> absent from a Guess as
  constructed. Pruning in \<^verbatim>\<open>merge_all\<close> deletes values only: every confidence is kept,
  and \<^verbatim>\<open>confidence\<close> returns after pruning what it returned before.
\<close>

theorem confidence_fails_without_entry:
  "(\<not> has_key (conf g) k \<longrightarrow> confidence g k = Inl KeyError)
   \<and> (\<not> has_key d k \<longrightarrow> confidence (Guess d c) k = Inl KeyError)
   \<and> (prune r ps = Inr r' \<longrightarrow> confidence r' p = confidence r p)"
proof (intro conjI impI)
  assume "\<not> has_key (conf g) k"
  then have "map_of (conf g) k = None"
    by (simp add: has_key_def map_of_eq_None_iff)
  then show "confidence g k = Inl KeyError"
    by (simp add: confidence_def getitem_def)
next
  assume "\<not> has_key d k"
  then have "k \<notin> fst ` set (conf (Guess d c))"
    using Guess_conf_keys [of d c] by (simp add: has_key_def Guess_def Let_def image_comp comp_def)
  then have "map_of (conf (Guess d c)) k = None"
    by (simp add: map_of_eq_None_iff)
  then show "confidence (Guess d c) k = Inl KeyError"
    by (simp add: confidence_def getitem_def)
next
  assume "prune r ps = Inr r'"
  then have "conf r' = conf r" by (rule prune_keeps_conf)
  then show "confidence r' p = confidence r p" by (simp add: confidence_def)
qed

theorem confidence_fails_without_entry_witness:
  "\<not> has_key (conf (Guess [(''season'', VInt 1)] (Some (1/5)))) ''episodeNumber''
   \<and> \<not> has_key [(''season'', VInt 1)] ''episodeNumber''
   \<and> confidence (Guess [(''season'', VInt 1)] (Some (1/5))) ''episodeNumber'' = Inl KeyError
   \<and> prune (Guess [(''episodeNumber'', VInt 27)] (Some (1/50))) [''episodeNumber'']
       = Inr \<lparr>vals = [], conf = [(''episodeNumber'', 1/50)]\<rparr>
   \<and> confidence \<lparr>vals = [], conf = [(''episodeNumber'', 1/50)]\<rparr> ''episodeNumber''
       = confidence (Guess [(''episodeNumber'', VInt 27)] (Some (1/50))) ''episodeNumber''"
proof -
  have h1: "\<not> has_key (conf (Guess [(''season'', VInt 1)] (Some (1/5)))) ''episodeNumber''"
    by code_simp
  have h2: "\<not> has_key [(''season'', VInt 1)] ''episodeNumber''"
    by code_simp
  have h3: "prune (Guess [(''episodeNumber'', VInt 27)] (Some (1/50))) [''episodeNumber'']
       = Inr \<lparr>vals = [], conf = [(''episodeNumber'', 1/50)]\<rparr>"
    by code_simp
  note t = confidence_fails_without_entry
    [of "Guess [(''season'', VInt 1)] (Some (1/5))" "''episodeNumber''"
        "[(''season'', VInt 1)]" "Some (1/5)"
        "Guess [(''episodeNumber'', VInt 27)] (Some (1/50))" "[''episodeNumber'']"
        "\<lparr>vals = [], conf = [(''episodeNumber'', 1/50)]\<rparr>" "''episodeNumber''"]
  from t h1 h2 h3 show ?thesis by blast
qed

section \<open>Highest confidence wins\<close>

lemma has_key_map_of: "has_key d k \<longleftrightarrow> map_of d k \<noteq> None"
  by (simp add: has_key_def map_of_eq_None_iff)

lemma well_formed_iff:
  "well_formed g \<longleftrightarrow> (\<forall>k. map_of (vals g) k \<noteq> None \<longrightarrow> map_of (conf g) k \<noteq> None)"
proof -
  have "well_formed g \<longleftrightarrow> (\<forall>k. has_key (vals g) k \<longrightarrow> has_key (conf g) k)"
    by (auto simp: well_formed_def list_all_iff has_key_def)
  then show ?thesis by (simp add: has_key_map_of)
qed

lemma well_formed_conf:
  assumes "well_formed g" "has_key (vals g) k"
  shows "\<exists>c. map_of (conf g) k = Some c"
  using assms by (auto simp: well_formed_iff has_key_map_of)

lemma well_formed_update:
  assumes "well_formed g"
  shows "well_formed \<lparr>vals = AList.update k v (vals g), conf = AList.update k c (conf g)\<rparr>"
  using assms by (simp add: well_formed_iff update_conv')

lemma update_highest_step:
  assumes wfs: "well_formed s" and wfo: "well_formed other" and hk: "has_key (vals other) p"
  shows "\<exists>s'. (\<forall>ps. update_highest_loop s other (p # ps) = update_highest_loop s' other ps)
     \<and> well_formed s' \<and> keeps_own s' other p
     \<and> (\<forall>k. k \<noteq> p \<longrightarrow> map_of (vals s') k = map_of (vals s) k
                        \<and> map_of (conf s') k = map_of (conf s) k)
     \<and> (keeps_own s other p \<longrightarrow> s' = s)
     \<and> (\<not> keeps_own s other p \<longrightarrow> map_of (vals s') p = map_of (vals other) p
                                  \<and> map_of (conf s') p = map_of (conf other) p)"
proof -
  obtain v where v: "map_of (vals other) p = Some v"
    using hk by (auto simp: has_key_map_of)
  obtain co where co: "map_of (conf other) p = Some co"
    using well_formed_conf [OF wfo hk] by auto
  let ?s' = "\<lparr>vals = AList.update p v (vals s), conf = AList.update p co (conf s)\<rparr>"
  have adopted: "well_formed ?s' \<and> keeps_own ?s' other p
     \<and> (\<forall>k. k \<noteq> p \<longrightarrow> map_of (vals ?s') k = map_of (vals s) k
                        \<and> map_of (conf ?s') k = map_of (conf s) k)
     \<and> map_of (vals ?s') p = map_of (vals other) p
     \<and> map_of (conf ?s') p = map_of (conf other) p"
    using well_formed_update [OF wfs, of p v co] v co
    by (simp add: keeps_own_def has_key_map_of update_conv')
  show ?thesis
  proof (cases "has_key (vals s) p")
    case False
    then have nk: "\<not> keeps_own s other p" by (simp add: keeps_own_def)
    have "\<forall>ps. update_highest_loop s other (p # ps) = update_highest_loop ?s' other ps"
      using False v co by (simp add: getitem_def)
    with adopted nk show ?thesis by blast
  next
    case True
    then obtain cs where cs: "map_of (conf s) p = Some cs"
      using well_formed_conf [OF wfs] by blast
    show ?thesis
    proof (cases "cs \<ge> co")
      case ge: True
      have k: "keeps_own s other p" using True cs co ge by (simp add: keeps_own_def)
      have "\<forall>ps. update_highest_loop s other (p # ps) = update_highest_loop s other ps"
        using True cs co ge by (simp add: getitem_def)
      with k wfs show ?thesis by blast
    next
      case lt: False
      have nk: "\<not> keeps_own s other p" using cs co lt by (simp add: keeps_own_def)
      have "\<forall>ps. update_highest_loop s other (p # ps) = update_highest_loop ?s' other ps"
        using True v cs co lt by (simp add: getitem_def)
      with adopted nk show ?thesis by blast
    qed
  qed
qed

lemma keeps_own_cong:
  assumes "map_of (vals a) k = map_of (vals b) k" "map_of (conf a) k = map_of (conf b) k"
  shows "keeps_own a other k = keeps_own b other k"
  using assms by (simp add: keeps_own_def has_key_map_of)

lemma update_highest_loop_result:
  assumes wfo: "well_formed other"
    and sub: "set ps \<subseteq> set (map fst (vals other))"
    and wfs: "well_formed s"
  shows "\<exists>r. update_highest_loop s other ps = Inr r \<and> well_formed r
     \<and> (\<forall>k. k \<notin> set ps \<longrightarrow> map_of (vals r) k = map_of (vals s) k
                            \<and> map_of (conf r) k = map_of (conf s) k)
     \<and> (\<forall>k. k \<in> set ps \<longrightarrow>
           (keeps_own s other k \<longrightarrow> map_of (vals r) k = map_of (vals s) k
                                  \<and> map_of (conf r) k = map_of (conf s) k)
         \<and> (\<not> keeps_own s other k \<longrightarrow> map_of (vals r) k = map_of (vals other) k
                                  \<and> map_of (conf r) k = map_of (conf other) k))"
  using sub wfs
proof (induction ps arbitrary: s)
  case Nil
  then show ?case by simp
next
  case (Cons p ps)
  have hk: "has_key (vals other) p" using Cons.prems(1) by (simp add: has_key_def)
  obtain s' where
    run: "\<And>qs. update_highest_loop s other (p # qs) = update_highest_loop s' other qs"
    and wf': "well_formed s'" and kp: "keeps_own s' other p"
    and others: "\<And>k. k \<noteq> p \<Longrightarrow> map_of (vals s') k = map_of (vals s) k
                        \<and> map_of (conf s') k = map_of (conf s) k"
    and kept: "keeps_own s other p \<Longrightarrow> s' = s"
    and adopted: "\<not> keeps_own s other p \<Longrightarrow> map_of (vals s') p = map_of (vals other) p
                                  \<and> map_of (conf s') p = map_of (conf other) p"
    using update_highest_step [OF Cons.prems(2) wfo hk] by blast
  have sub': "set ps \<subseteq> set (map fst (vals other))" using Cons.prems(1) by simp
  obtain r where r: "update_highest_loop s' other ps = Inr r" and wfr: "well_formed r"
    and out: "\<And>k. k \<notin> set ps \<Longrightarrow> map_of (vals r) k = map_of (vals s') k
                            \<and> map_of (conf r) k = map_of (conf s') k"
    and inn: "\<And>k. k \<in> set ps \<Longrightarrow>
           (keeps_own s' other k \<longrightarrow> map_of (vals r) k = map_of (vals s') k
                                  \<and> map_of (conf r) k = map_of (conf s') k)
         \<and> (\<not> keeps_own s' other k \<longrightarrow> map_of (vals r) k = map_of (vals other) k
                                  \<and> map_of (conf r) k = map_of (conf other) k)"
    using Cons.IH [OF sub' wf'] by blast
  have at_p: "map_of (vals r) p = map_of (vals s') p \<and> map_of (conf r) p = map_of (conf s') p"
    using out [of p] inn [of p] kp by blast
  have c1: "update_highest_loop s other (p # ps) = Inr r" using run r by simp
  have c2: "map_of (vals r) k = map_of (vals s) k \<and> map_of (conf r) k = map_of (conf s) k"
    if "k \<notin> set (p # ps)" for k
    using that out [of k] others [of k] by simp
  have c3: "(keeps_own s other k \<longrightarrow> map_of (vals r) k = map_of (vals s) k
                                  \<and> map_of (conf r) k = map_of (conf s) k)
         \<and> (\<not> keeps_own s other k \<longrightarrow> map_of (vals r) k = map_of (vals other) k
                                  \<and> map_of (conf r) k = map_of (conf other) k)"
    if "k \<in> set (p # ps)" for k
  proof (cases "k = p")
    case True
    then show ?thesis using at_p kept adopted by auto
  next
    case False
    then have kin: "k \<in> set ps" using that by simp
    have same: "map_of (vals s') k = map_of (vals s) k \<and> map_of (conf s') k = map_of (conf s) k"
      using others [OF False] .
    then have "keeps_own s' other k = keeps_own s other k"
      using keeps_own_cong by blast
    then show ?thesis using inn [OF kin] same by simp
  qed
  from c1 wfr c2 c3 show ?case by blast
qed
text \<open>
  C8. On guesses in which every value has a confidence, \<^verbatim>\<open>update_highest_confidence\<close>
  returns normally, and for each key of \<^verbatim>\<open>other\<close>: if \<^verbatim>\<open>self\<close> has the key with a
  confidence at least that of \<^verbatim>\<open>other\<close> (a tie included), the value and the confidence
  of \<^verbatim>\<open>self\<close> for that key are unchanged; if \<^verbatim>\<open>self\<close> has a lower confidence for the
  key, or does not have the key, \<^verbatim>\<open>self\<close> gets the value and the confidence of
  \<^verbatim>\<open>other\<close>.
\<close>

theorem update_highest_confidence_spec:
  assumes "well_formed self" and "well_formed other"
  shows "\<exists>r. update_highest_confidence self other = Inr r
     \<and> (\<forall>k cs co. has_key (vals other) k \<and> has_key (vals self) k
           \<and> confidence self k = Inr cs \<and> confidence other k = Inr co \<and> co \<le> cs
           \<longrightarrow> getitem (vals r) k = getitem (vals self) k \<and> confidence r k = Inr cs)
     \<and> (\<forall>k cs co. has_key (vals other) k
           \<and> confidence self k = Inr cs \<and> confidence other k = Inr co \<and> cs < co
           \<longrightarrow> getitem (vals r) k = getitem (vals other) k \<and> confidence r k = Inr co)
     \<and> (\<forall>k. has_key (vals other) k \<and> \<not> has_key (vals self) k
           \<longrightarrow> getitem (vals r) k = getitem (vals other) k
               \<and> confidence r k = confidence other k)"
proof -
  obtain r where r: "update_highest_loop self other (map fst (vals other)) = Inr r"
    and inn: "\<And>k. k \<in> set (map fst (vals other)) \<Longrightarrow>
           (keeps_own self other k \<longrightarrow> map_of (vals r) k = map_of (vals self) k
                                  \<and> map_of (conf r) k = map_of (conf self) k)
         \<and> (\<not> keeps_own self other k \<longrightarrow> map_of (vals r) k = map_of (vals other) k
                                  \<and> map_of (conf r) k = map_of (conf other) k)"
    using update_highest_loop_result [OF assms(2) subset_refl assms(1)] by blast
  have conf_Inr: "confidence g k = Inr c \<longleftrightarrow> map_of (conf g) k = Some c" for g k c
    by (simp add: confidence_def getitem_def split: option.splits)
  have a: "getitem (vals r) k = getitem (vals self) k \<and> confidence r k = Inr cs"
    if "has_key (vals other) k" "has_key (vals self) k"
      "confidence self k = Inr cs" "confidence other k = Inr co" "co \<le> cs" for k cs co
  proof -
    have "keeps_own self other k" using that by (simp add: keeps_own_def conf_Inr)
    with inn [of k] that(1,3) show ?thesis
      by (simp add: has_key_def getitem_def confidence_def)
  qed
  have b: "getitem (vals r) k = getitem (vals other) k \<and> confidence r k = Inr co"
    if "has_key (vals other) k"
      "confidence self k = Inr cs" "confidence other k = Inr co" "cs < co" for k cs co
  proof -
    have "\<not> keeps_own self other k" using that by (simp add: keeps_own_def conf_Inr)
    with inn [of k] that(1,3) show ?thesis
      by (simp add: has_key_def getitem_def confidence_def)
  qed
  have c: "getitem (vals r) k = getitem (vals other) k \<and> confidence r k = confidence other k"
    if "has_key (vals other) k" "\<not> has_key (vals self) k" for k
  proof -
    have "\<not> keeps_own self other k" using that by (simp add: keeps_own_def)
    with inn [of k] that(1) show ?thesis
      by (simp add: has_key_def getitem_def confidence_def)
  qed
  from r a b c show ?thesis
    unfolding update_highest_confidence_def by blast
qed

theorem update_highest_confidence_spec_witness:
  "well_formed tie_self \<and> well_formed tie_other
   \<and> has_key (vals tie_other) ''season'' \<and> has_key (vals tie_self) ''season''
   \<and> confidence tie_self ''season'' = Inr (1/2) \<and> confidence tie_other ''season'' = Inr (1/2)
   \<and> has_key (vals tie_other) ''title''
   \<and> confidence tie_self ''title'' = Inr (1/5) \<and> confidence tie_other ''title'' = Inr (9/10)
   \<and> has_key (vals tie_other) ''year'' \<and> \<not> has_key (vals tie_self) ''year''
   \<and> update_highest_confidence tie_self tie_other =
       Inr \<lparr>vals = [(''season'', VInt 1), (''title'', VStr ''b''), (''year'', VInt 2000)],
            conf = [(''season'', 1/2), (''title'', 9/10), (''year'', 1/10)]\<rparr>
   \<and> getitem (vals \<lparr>vals = [(''season'', VInt 1), (''title'', VStr ''b''), (''year'', VInt 2000)],
            conf = [(''season'', 1/2), (''title'', 9/10), (''year'', 1/10)]\<rparr>) ''season''
       = getitem (vals tie_self) ''season''
   \<and> getitem (vals \<lparr>vals = [(''season'', VInt 1), (''title'', VStr ''b''), (''year'', VInt 2000)],
            conf = [(''season'', 1/2), (''title'', 9/10), (''year'', 1/10)]\<rparr>) ''title''
       = getitem (vals tie_other) ''title''
   \<and> getitem (vals \<lparr>vals = [(''season'', VInt 1), (''title'', VStr ''b''), (''year'', VInt 2000)],
            conf = [(''season'', 1/2), (''title'', 9/10), (''year'', 1/10)]\<rparr>) ''year''
       = getitem (vals tie_other) ''year''"
proof -
  have wf: "well_formed tie_self" "well_formed tie_other" by code_simp+
  have h1: "has_key (vals tie_other) ''season'' \<and> has_key (vals tie_self) ''season''
     \<and> confidence tie_self ''season'' = Inr (1/2) \<and> confidence tie_other ''season'' = Inr (1/2)
     \<and> (1/2 :: real) \<le> 1/2"
    by code_simp
  have h2: "has_key (vals tie_other) ''title''
     \<and> confidence tie_self ''title'' = Inr (1/5) \<and> confidence tie_other ''title'' = Inr (9/10)
     \<and> (1/5 :: real) < 9/10"
    by code_simp
  have h3: "has_key (vals tie_other) ''year'' \<and> \<not> has_key (vals tie_self) ''year''"
    by code_simp
  have run: "update_highest_confidence tie_self tie_other =
       Inr \<lparr>vals = [(''season'', VInt 1), (''title'', VStr ''b''), (''year'', VInt 2000)],
            conf = [(''season'', 1/2), (''title'', 9/10), (''year'', 1/10)]\<rparr>"
    by code_simp
  obtain r where r: "update_highest_confidence tie_self tie_other = Inr r"
    and a: "\<And>k cs co. has_key (vals tie_other) k \<and> has_key (vals tie_self) k
           \<and> confidence tie_self k = Inr cs \<and> confidence tie_other k = Inr co \<and> co \<le> cs
           \<Longrightarrow> getitem (vals r) k = getitem (vals tie_self) k \<and> confidence r k = Inr cs"
    and b: "\<And>k cs co. has_key (vals tie_other) k
           \<and> confidence tie_self k = Inr cs \<and> confidence tie_other k = Inr co \<and> cs < co
           \<Longrightarrow> getitem (vals r) k = getitem (vals tie_other) k \<and> confidence r k = Inr co"
    and c: "\<And>k. has_key (vals tie_other) k \<and> \<not> has_key (vals tie_self) k
           \<Longrightarrow> getitem (vals r) k = getitem (vals tie_other) k
               \<and> confidence r k = confidence tie_other k"
    using update_highest_confidence_spec [OF wf] by blast
  have req: "r = \<lparr>vals = [(''season'', VInt 1), (''title'', VStr ''b''), (''year'', VInt 2000)],
            conf = [(''season'', 1/2), (''title'', 9/10), (''year'', 1/10)]\<rparr>"
    using r run by simp
  from wf h1 h2 h3 run a [OF h1] b [OF h2] c [OF h3] show ?thesis
    unfolding req by blast
qed

end
